theory Spec2Isabelle
  imports Complex_Main
begin

section \<open>JavaScript numbers\<close>

text \<open>
  Every number of \<^verbatim>\<open>bg.js\<close> is a JavaScript number. The model keeps the special
  values of IEEE 754 (the two infinities and NaN), because the render loop tests for them,
  and takes a finite number to be an exact real: the sign of zero is not modelled (a zero
  is the positive zero), and the rounding of a result to a double is modelled by \<open>fl\<close>
  where it decides how many circles a frame spawns (\<open>random_double\<close> in \<open>spawn_count\<close>),
  and nowhere else.
\<close>

datatype jsnum = Num real | PosInf | NegInf | NaN

fun isFinite :: "jsnum \<Rightarrow> bool" where
  "isFinite (Num a) = True"
| "isFinite PosInf = False"
| "isFinite NegInf = False"
| "isFinite NaN = False"

fun jneg :: "jsnum \<Rightarrow> jsnum" where
  "jneg (Num a) = Num (- a)"
| "jneg PosInf = NegInf"
| "jneg NegInf = PosInf"
| "jneg NaN = NaN"

fun jadd :: "jsnum \<Rightarrow> jsnum \<Rightarrow> jsnum" where
  "jadd (Num a) (Num b) = Num (a + b)"
| "jadd NaN b = NaN"
| "jadd a NaN = NaN"
| "jadd PosInf NegInf = NaN"
| "jadd NegInf PosInf = NaN"
| "jadd PosInf b = PosInf"
| "jadd NegInf b = NegInf"
| "jadd (Num a) PosInf = PosInf"
| "jadd (Num a) NegInf = NegInf"

definition jsub :: "jsnum \<Rightarrow> jsnum \<Rightarrow> jsnum" where
  "jsub a b = jadd a (jneg b)"

text \<open>The sign of a number that is not NaN: \<open>True\<close> for negative.\<close>

fun negative :: "jsnum \<Rightarrow> bool" where
  "negative (Num a) = (a < 0)"
| "negative NegInf = True"
| "negative PosInf = False"
| "negative NaN = False"

definition signed_inf :: "bool \<Rightarrow> jsnum" where
  "signed_inf neg = (if neg then NegInf else PosInf)"

fun jmul :: "jsnum \<Rightarrow> jsnum \<Rightarrow> jsnum" where
  "jmul (Num a) (Num b) = Num (a * b)"
| "jmul NaN b = NaN"
| "jmul a NaN = NaN"
| "jmul (Num a) b = (if a = 0 then NaN else signed_inf (negative (Num a) \<noteq> negative b))"
| "jmul a (Num b) = (if b = 0 then NaN else signed_inf (negative a \<noteq> negative (Num b)))"
| "jmul a b = signed_inf (negative a \<noteq> negative b)"

fun jdiv :: "jsnum \<Rightarrow> jsnum \<Rightarrow> jsnum" where
  "jdiv (Num a) (Num b) =
     (if b \<noteq> 0 then Num (a / b)
      else if a = 0 then NaN
      else signed_inf (a < 0))"
| "jdiv NaN b = NaN"
| "jdiv a NaN = NaN"
| "jdiv (Num a) b = Num 0"
| "jdiv a (Num b) = signed_inf (negative a \<noteq> negative (Num b))"
| "jdiv a b = NaN"

text \<open>Comparisons: every comparison with NaN is false.\<close>

fun jlt :: "jsnum \<Rightarrow> jsnum \<Rightarrow> bool" where
  "jlt (Num a) (Num b) = (a < b)"
| "jlt NaN b = False"
| "jlt a NaN = False"
| "jlt a NegInf = False"
| "jlt PosInf b = False"
| "jlt NegInf b = True"
| "jlt (Num a) PosInf = True"

definition jgt :: "jsnum \<Rightarrow> jsnum \<Rightarrow> bool" where
  "jgt a b = jlt b a"

fun jle :: "jsnum \<Rightarrow> jsnum \<Rightarrow> bool" where
  "jle (Num a) (Num b) = (a \<le> b)"
| "jle NaN b = False"
| "jle a NaN = False"
| "jle NegInf b = True"
| "jle a PosInf = True"
| "jle a NegInf = False"
| "jle PosInf b = False"

definition jge :: "jsnum \<Rightarrow> jsnum \<Rightarrow> bool" where
  "jge a b = jle b a"

text \<open>\<^verbatim>\<open>Math.min\<close>, \<^verbatim>\<open>Math.max\<close> (NaN when an argument is NaN) and \<^verbatim>\<open>Math.floor\<close>.\<close>

fun jmin :: "jsnum \<Rightarrow> jsnum \<Rightarrow> jsnum" where
  "jmin NaN b = NaN"
| "jmin a NaN = NaN"
| "jmin a b = (if jle a b then a else b)"

fun jmax :: "jsnum \<Rightarrow> jsnum \<Rightarrow> jsnum" where
  "jmax NaN b = NaN"
| "jmax a NaN = NaN"
| "jmax a b = (if jle a b then b else a)"

fun jfloor :: "jsnum \<Rightarrow> jsnum" where
  "jfloor (Num a) = Num (of_int \<lfloor>a\<rfloor>)"
| "jfloor a = a"

text \<open>
  Rounding to the nearest double, ties to the even significand: a double of the binade
  \<open>[2^e, 2^(e+1))\<close> is a multiple of \<open>2^(e-52)\<close>. (Within the normal range; overflow and
  subnormal numbers are not modelled.)
\<close>

definition round_even :: "real \<Rightarrow> int" where
  "round_even q =
     (let n = \<lfloor>q\<rfloor>; d = q - of_int n
      in if d < 1 / 2 then n else if 1 / 2 < d then n + 1 else if even n then n else n + 1)"

definition fl :: "real \<Rightarrow> real" where
  "fl x =
     (if x = 0 then 0
      else (let e = \<lfloor>log 2 \<bar>x\<bar>\<rfloor>; u = 2 powr (of_int e - 52)
            in of_int (round_even (x / u)) * u))"

fun fl_num :: "jsnum \<Rightarrow> jsnum" where
  "fl_num (Num a) = Num (fl a)"
| "fl_num a = a"

section \<open>The data of the animator\<close>

text \<open>
  A colour is the string \<^verbatim>\<open>hsla(${hue} ${sat}% ${light}% / 1)\<close>; the model keeps its three
  numbers. A gradient stop is that colour or \<^verbatim>\<open>'transparent'\<close>.
\<close>

datatype colour = Hsla jsnum jsnum jsnum

datatype paint = Transparent | Solid colour

text \<open>
  An element of the array \<^verbatim>\<open>circles\<close>. The fields \<^verbatim>\<open>x\<close> and \<^verbatim>\<open>y\<close> of the source are
  \<open>c_x\<close> and \<open>c_y\<close> here.
\<close>

record circle =
  c_x :: jsnum
  c_y :: jsnum
  radius :: jsnum
  color :: colour
  lifeMs :: jsnum
  fadeInPortion :: jsnum
  fadeOutPortion :: jsnum
  createdAt :: jsnum

text \<open>A CSS length \<^verbatim>\<open>n + 'px'\<close>.\<close>

datatype css_length = Px jsnum

text \<open>
  What the animation reads from the browser: the window's three properties
  (\<^verbatim>\<open>devicePixelRatio\<close> is \<open>None\<close> where it is undefined), the successive results of
  \<^verbatim>\<open>Math.random()\<close> and the successive results of \<^verbatim>\<open>performance.now()\<close>.
\<close>

record env =
  innerWidth :: jsnum
  innerHeight :: jsnum
  devicePixelRatio :: "jsnum option"
  rnd :: "nat \<Rightarrow> real"
  clk :: "nat \<Rightarrow> jsnum"

text \<open>
  The variables of one closure of \<^verbatim>\<open>bg.js\<close>, with what it writes to the canvas and to its
  2D context. \<open>rnd_used\<close> and \<open>clk_used\<close> count the calls of \<^verbatim>\<open>Math.random()\<close> and of
  \<^verbatim>\<open>performance.now()\<close> made so far. The second closure has no \<^verbatim>\<open>lastNow\<close>; its
  functions never touch the field.
\<close>

record animator =
  devicePixelRatioScale :: jsnum
  canvas_width :: jsnum
  canvas_height :: jsnum
  style_width :: css_length
  style_height :: css_length
  transform :: "jsnum \<times> jsnum \<times> jsnum \<times> jsnum \<times> jsnum \<times> jsnum"
  globalAlpha :: jsnum
  circles :: "circle list"
  lastSpawn :: jsnum
  lastNow :: jsnum
  rnd_used :: nat
  clk_used :: nat

text \<open>The drawing commands of one frame.\<close>

datatype command =
    ClearRect jsnum jsnum jsnum jsnum
  | FillDisc jsnum "(jsnum \<times> paint) list" jsnum jsnum jsnum

section \<open>resizeCanvas\<close>

text \<open>\<^verbatim>\<open>devicePixelRatio || 1\<close>: undefined, zero and NaN are falsy.\<close>

fun or_one :: "jsnum option \<Rightarrow> jsnum" where
  "or_one None = Num 1"
| "or_one (Some NaN) = Num 1"
| "or_one (Some (Num a)) = (if a = 0 then Num 1 else Num a)"
| "or_one (Some v) = v"

definition resizeCanvas :: "env \<Rightarrow> animator \<Rightarrow> animator" where
  "resizeCanvas e st =
     (let s = jmin (Num 2) (or_one (devicePixelRatio e)) in
      st\<lparr>devicePixelRatioScale := s,
         canvas_width := jfloor (jmul (innerWidth e) s),
         canvas_height := jfloor (jmul (innerHeight e) s),
         style_width := Px (innerWidth e),
         style_height := Px (innerHeight e),
         transform := (s, Num 0, Num 0, s, Num 0, Num 0)\<rparr>)"

section \<open>spawnCircle\<close>

text \<open>\<^verbatim>\<open>random(min, max)\<close>, given the result \<open>r\<close> of its call of \<^verbatim>\<open>Math.random()\<close>.\<close>

definition random :: "jsnum \<Rightarrow> jsnum \<Rightarrow> real \<Rightarrow> jsnum" where
  "random lo hi r = jadd (jmul (Num r) (jsub hi lo)) lo"

text \<open>The same expression with the result of each of its three operations rounded.\<close>

definition random_double :: "jsnum \<Rightarrow> jsnum \<Rightarrow> real \<Rightarrow> jsnum" where
  "random_double lo hi r = fl_num (jadd (fl_num (jmul (Num r) (fl_num (jsub hi lo)))) lo)"

text \<open>
  The two closures differ, in \<^verbatim>\<open>spawnCircle\<close>, by the ranges of the saturation, of the
  lightness and of the lifetime only.
\<close>

record ranges =
  sat_lo :: real
  sat_hi :: real
  light_lo :: real
  light_hi :: real
  life_lo :: real
  life_hi :: real

definition ranges1 :: ranges where
  "ranges1 = \<lparr>sat_lo = 30, sat_hi = 45, light_lo = 80, light_hi = 92,
              life_lo = 9000, life_hi = 14000\<rparr>"

definition ranges2 :: ranges where
  "ranges2 = \<lparr>sat_lo = 60, sat_hi = 85, light_lo = 55, light_hi = 75,
              life_lo = 6000, life_hi = 12000\<rparr>"

definition maxRadius :: "env \<Rightarrow> jsnum" where
  "maxRadius e = jmul (jmax (innerWidth e) (innerHeight e)) (Num 0.08)"

definition minRadius :: "env \<Rightarrow> jsnum" where
  "minRadius e = jmax (Num 20) (jmul (jmin (innerWidth e) (innerHeight e)) (Num 0.01))"

text \<open>
  The circle that \<^verbatim>\<open>spawnCircle\<close> builds (lines 44 to 71, and 202 to 230), from the \<open>k\<close>-th
  result of \<^verbatim>\<open>Math.random()\<close> on and from the \<open>j\<close>-th result of \<^verbatim>\<open>performance.now()\<close>;
  \<^verbatim>\<open>spawnCircle\<close> appends it to the array.
\<close>

definition new_circle :: "ranges \<Rightarrow> env \<Rightarrow> nat \<Rightarrow> nat \<Rightarrow> circle" where
  "new_circle g e k j =
     (let w = innerWidth e;
          h = innerHeight e;
          rad = random (minRadius e) (maxRadius e) (rnd e k);
          px = random (jneg rad) (jadd w rad) (rnd e (k + 1));
          py = random (jneg rad) (jadd h rad) (rnd e (k + 2));
          hue = jfloor (random (Num 0) (Num 360) (rnd e (k + 3)));
          sat = jfloor (random (Num (sat_lo g)) (Num (sat_hi g)) (rnd e (k + 4)));
          light = jfloor (random (Num (light_lo g)) (Num (light_hi g)) (rnd e (k + 5)));
          life = random (Num (life_lo g)) (Num (life_hi g)) (rnd e (k + 6))
      in \<lparr>c_x = px, c_y = py, radius = rad, color = Hsla hue sat light, lifeMs = life,
          fadeInPortion = Num 0.25, fadeOutPortion = Num 0.25, createdAt = clk e j\<rparr>)"

definition spawnCircle :: "ranges \<Rightarrow> env \<Rightarrow> animator \<Rightarrow> animator" where
  "spawnCircle g e st =
     st\<lparr>circles := circles st @ [new_circle g e (rnd_used st) (clk_used st)],
        rnd_used := rnd_used st + 7,
        clk_used := clk_used st + 1\<rparr>"

section \<open>animate\<close>

subsection \<open>The spawn step\<close>

text \<open>
  \<^verbatim>\<open>for (let i = 0; i < count; i++) spawnCircle();\<close> The loop would not end for an infinite
  \<^verbatim>\<open>count\<close>, so its result is an option.
\<close>

partial_function (option) spawn_loop ::
  "ranges \<Rightarrow> env \<Rightarrow> nat \<Rightarrow> jsnum \<Rightarrow> animator \<Rightarrow> animator option" where
  "spawn_loop g e i count st =
     (if jlt (Num (real i)) count then spawn_loop g e (i + 1) count (spawnCircle g e st)
      else Some st)"

declare spawn_loop.simps [code]

text \<open>
  \<^verbatim>\<open>Math.random() < 0.2 ? Math.floor(random(2, 4)) : 1\<close>, from the \<open>k\<close>-th result of
  \<^verbatim>\<open>Math.random()\<close> on; the second component counts the results used.
\<close>

definition spawn_count :: "env \<Rightarrow> nat \<Rightarrow> jsnum \<times> nat" where
  "spawn_count e k =
     (if jlt (Num (rnd e k)) (Num 0.2)
      then (jfloor (random_double (Num 2) (Num 4) (rnd e (k + 1))), k + 2)
      else (Num 1, k + 1))"

definition spawn_step :: "ranges \<Rightarrow> env \<Rightarrow> jsnum \<Rightarrow> animator \<Rightarrow> animator option" where
  "spawn_step g e now st =
     (if jgt (jsub now (lastSpawn st)) (Num 400)
      then (let (count, k) = spawn_count e (rnd_used st)
            in spawn_loop g e 0 count (st\<lparr>lastSpawn := now, rnd_used := k\<rparr>))
      else Some st)"

subsection \<open>The opacity of a circle\<close>

text \<open>The \<^verbatim>\<open>alpha\<close> of the \<^verbatim>\<open>if\<close> chain on the progress \<open>t\<close> (both closures).\<close>

definition alpha_fade :: "circle \<Rightarrow> jsnum \<Rightarrow> jsnum" where
  "alpha_fade c t =
     (if jlt t (fadeInPortion c) then jdiv t (fadeInPortion c)
      else if jgt t (jsub (Num 1) (fadeOutPortion c))
        then jdiv (jsub (Num 1) t) (fadeOutPortion c)
      else Num 1)"

text \<open>
  \<^verbatim>\<open>if (!Number.isFinite(alpha)) alpha = 0; alpha = Math.max(0, Math.min(alpha, 1));\<close>
  (first closure only).
\<close>

definition alpha_safe :: "jsnum \<Rightarrow> jsnum" where
  "alpha_safe a = jmax (Num 0) (jmin (if \<not> isFinite a then Num 0 else a) (Num 1))"

text \<open>The opacity before the dimming factor, in the first and in the second closure.\<close>

definition alpha1 :: "circle \<Rightarrow> jsnum \<Rightarrow> jsnum" where
  "alpha1 c t = alpha_safe (alpha_fade c t)"

definition alpha2 :: "circle \<Rightarrow> jsnum \<Rightarrow> jsnum" where
  "alpha2 c t = alpha_fade c t"

subsection \<open>The loop over the circles\<close>

text \<open>
  \<^verbatim>\<open>for (let i = circles.length - 1; i >= 0; i--)\<close>: the third argument is \<open>i + 1\<close>.
  \<^verbatim>\<open>circles.splice(i, 1)\<close> removes the element of index \<open>i\<close>. The index is within the array
  at every turn, since the loop starts at the last index and a removal at \<open>i\<close> leaves the
  elements below \<open>i\<close> in place.
\<close>

definition stops1 :: "circle \<Rightarrow> (jsnum \<times> paint) list" where
  "stops1 c = [(Num 0.0, Transparent), (Num 0.6, Transparent),
               (Num 0.85, Solid (color c)), (Num 1.0, Transparent)]"

definition stops2 :: "circle \<Rightarrow> (jsnum \<times> paint) list" where
  "stops2 c = [(Num 0, Solid (color c)), (Num 1, Transparent)]"

text \<open>
  The body of the loop, in parts: \<^verbatim>\<open>c.createdAt += delta\<close> (first closure only),
  \<^verbatim>\<open>const age = now - c.createdAt\<close>, the test \<^verbatim>\<open>age >= c.lifeMs\<close>, and the drawing of
  the circle with its opacity times the dimming factor.
\<close>

definition advance :: "jsnum \<Rightarrow> circle \<Rightarrow> circle" where
  "advance dl c = c\<lparr>createdAt := jadd (createdAt c) dl\<rparr>"

definition age :: "jsnum \<Rightarrow> circle \<Rightarrow> jsnum" where
  "age now c = jsub now (createdAt c)"

definition expired :: "jsnum \<Rightarrow> circle \<Rightarrow> bool" where
  "expired now c = jge (age now c) (lifeMs c)"

definition draw1 :: "jsnum \<Rightarrow> circle \<Rightarrow> command" where
  "draw1 now c =
     (let t = jdiv (age now c) (lifeMs c);
          alpha = jmul (alpha1 c t) (Num 0.22)
      in FillDisc alpha (stops1 c) (c_x c) (c_y c) (radius c))"

definition draw2 :: "jsnum \<Rightarrow> circle \<Rightarrow> command" where
  "draw2 now c =
     (let t = jdiv (age now c) (lifeMs c);
          alpha = jmul (alpha2 c t) (Num 0.25)
      in FillDisc alpha (stops2 c) (c_x c) (c_y c) (radius c))"

fun render1 :: "jsnum \<Rightarrow> jsnum \<Rightarrow> nat \<Rightarrow> circle list \<Rightarrow> circle list \<times> command list" where
  "render1 now dl 0 cs = (cs, [])"
| "render1 now dl (Suc i) cs =
     (let c = advance dl (cs ! i);
          cs1 = cs[i := c]
      in if expired now c
         then render1 now dl i (take i cs1 @ drop (Suc i) cs1)
         else (let (cs2, out) = render1 now dl i cs1
               in (cs2, draw1 now c # out)))"

fun render2 :: "jsnum \<Rightarrow> nat \<Rightarrow> circle list \<Rightarrow> circle list \<times> command list" where
  "render2 now 0 cs = (cs, [])"
| "render2 now (Suc i) cs =
     (let c = cs ! i
      in if expired now c
         then render2 now i (take i cs @ drop (Suc i) cs)
         else (let (cs2, out) = render2 now i cs
               in (cs2, draw2 now c # out)))"

subsection \<open>One frame\<close>

text \<open>
  \<^verbatim>\<open>const delta = Math.min(Math.max(now - lastNow, 0), 50);\<close> (first closure only).
\<close>

definition delta :: "jsnum \<Rightarrow> jsnum \<Rightarrow> jsnum" where
  "delta now prev = jmin (jmax (jsub now prev) (Num 0)) (Num 50)"

text \<open>
  \<^verbatim>\<open>animate(now)\<close> of the first closure (lines 80 to 149) and of the second (lines 236 to
  291). The result is the closure's new state and the commands drawn; the call of
  \<^verbatim>\<open>requestAnimationFrame\<close> is the host calling the function again.
\<close>

definition animate1 :: "env \<Rightarrow> jsnum \<Rightarrow> animator \<Rightarrow> (animator \<times> command list) option" where
  "animate1 e now st =
     (let w = jdiv (canvas_width st) (devicePixelRatioScale st);
          h = jdiv (canvas_height st) (devicePixelRatioScale st);
          dl = delta now (lastNow st)
      in case spawn_step ranges1 e now (st\<lparr>lastNow := now\<rparr>) of
           None \<Rightarrow> None
         | Some st1 \<Rightarrow>
             (let (cs, out) = render1 now dl (length (circles st1)) (circles st1)
              in Some (st1\<lparr>circles := cs, globalAlpha := Num 1\<rparr>,
                       ClearRect (Num 0) (Num 0) w h # out)))"

definition animate2 :: "env \<Rightarrow> jsnum \<Rightarrow> animator \<Rightarrow> (animator \<times> command list) option" where
  "animate2 e now st =
     (let w = jdiv (canvas_width st) (devicePixelRatioScale st);
          h = jdiv (canvas_height st) (devicePixelRatioScale st)
      in case spawn_step ranges2 e now st of
           None \<Rightarrow> None
         | Some st1 \<Rightarrow>
             (let (cs, out) = render2 now (length (circles st1)) (circles st1)
              in Some (st1\<lparr>circles := cs, globalAlpha := Num 1\<rparr>,
                       ClearRect (Num 0) (Num 0) w h # out)))"

text \<open>
  The state of a closure when the script has run: \<^verbatim>\<open>resizeCanvas()\<close> on the variables as
  declared. The fields of the canvas and of its context are all written by \<open>resizeCanvas\<close>
  before any is read, so that the values they have in \<open>declared\<close> do not matter.
\<close>

definition declared :: animator where
  "declared = \<lparr>devicePixelRatioScale = Num 1, canvas_width = Num 300, canvas_height = Num 150,
     style_width = Px (Num 0), style_height = Px (Num 0),
     transform = (Num 1, Num 0, Num 0, Num 1, Num 0, Num 0), globalAlpha = Num 1,
     circles = [], lastSpawn = Num 0, lastNow = Num 0, rnd_used = 0, clk_used = 0\<rparr>"

definition init :: "env \<Rightarrow> animator" where
  "init e = resizeCanvas e declared"

text \<open>
  \<^verbatim>\<open>requestAnimationFrame(animate)\<close>: the host calls \<open>animate\<close> once per frame, with the
  timestamps of the frames in turn.
\<close>

fun frames1 :: "env \<Rightarrow> jsnum list \<Rightarrow> animator \<Rightarrow> animator option" where
  "frames1 e [] st = Some st"
| "frames1 e (now # ts) st =
     (case animate1 e now st of None \<Rightarrow> None | Some (st1, out) \<Rightarrow> frames1 e ts st1)"

fun frames2 :: "env \<Rightarrow> jsnum list \<Rightarrow> animator \<Rightarrow> animator option" where
  "frames2 e [] st = Some st"
| "frames2 e (now # ts) st =
     (case animate2 e now st of None \<Rightarrow> None | Some (st1, out) \<Rightarrow> frames2 e ts st1)"

section \<open>Inputs\<close>

text \<open>Every result of \<^verbatim>\<open>Math.random()\<close> lies in \<open>[0, 1)\<close>.\<close>

definition unit_draws :: "env \<Rightarrow> bool" where
  "unit_draws e = (\<forall>n. 0 \<le> rnd e n \<and> rnd e n < 1)"

text \<open>
  A window of 1000 by 800 pixels where every draw is \<open>1/2\<close> and the clock reads 1000 ms;
  the same window where the draws are \<open>1/8\<close> but for the second, which is the largest
  double below 1; a window of 100 by 100 pixels.
\<close>

definition desktop :: env where
  "desktop = \<lparr>innerWidth = Num 1000, innerHeight = Num 800, devicePixelRatio = Some (Num 2),
     rnd = (\<lambda>n. 1 / 2), clk = (\<lambda>n. Num 1000)\<rparr>"

definition edge :: env where
  "edge = \<lparr>innerWidth = Num 1000, innerHeight = Num 800, devicePixelRatio = Some (Num 2),
     rnd = (\<lambda>n. if n = 1 then 1 - 1 / 2 ^ 53 else 1 / 8), clk = (\<lambda>n. Num 1000)\<rparr>"

definition small :: env where
  "small = \<lparr>innerWidth = Num 100, innerHeight = Num 100, devicePixelRatio = Some (Num 1),
     rnd = (\<lambda>n. 1 / 2), clk = (\<lambda>n. Num 1000)\<rparr>"

text \<open>
  The window \<open>desktop\<close> with a clock that reads, at its \<open>j\<close>-th call, \<open>1000 + 416 * j\<close> ms
  (over frames 16 ms apart from 1000 ms on, with draws of \<open>1/2\<close>, the timestamp of the
  frame of the \<open>j\<close>-th spawn), and with a clock that reads 1001 ms (a millisecond after the
  timestamp of the frame at 1000 ms).
\<close>

definition steady :: env where
  "steady = \<lparr>innerWidth = Num 1000, innerHeight = Num 800, devicePixelRatio = Some (Num 2),
     rnd = (\<lambda>n. 1 / 2), clk = (\<lambda>n. Num (1000 + 416 * real n))\<rparr>"

definition late :: env where
  "late = \<lparr>innerWidth = Num 1000, innerHeight = Num 800, devicePixelRatio = Some (Num 2),
     rnd = (\<lambda>n. 1 / 2), clk = (\<lambda>n. Num 1001)\<rparr>"

text \<open>A circle of the scenario: a lifetime of 10 s, fades of a quarter each.\<close>

definition sample :: circle where
  "sample = \<lparr>c_x = Num 500, c_y = Num 400, radius = Num 50,
     color = Hsla (Num 180) (Num 37) (Num 86), lifeMs = Num 10000,
     fadeInPortion = Num 0.25, fadeOutPortion = Num 0.25, createdAt = Num 0\<rparr>"

text \<open>
  With \<open>sample\<close> as the only circle and the last frame and the last spawn at 9990 ms; the
  same with a circle of lifetime zero that was created in the future.
\<close>

definition held :: animator where
  "held = (init desktop)\<lparr>circles := [sample], lastSpawn := Num 9990, lastNow := Num 9990\<rparr>"

definition degenerate :: animator where
  "degenerate = (init desktop)\<lparr>circles := [sample\<lparr>lifeMs := Num 0, createdAt := Num 20000\<rparr>],
     lastSpawn := Num 9990, lastNow := Num 9990\<rparr>"

text \<open>Timestamps of frames, each at most 50 ms after the one before, from \<open>prev\<close> on.\<close>

fun smooth :: "real \<Rightarrow> real list \<Rightarrow> bool" where
  "smooth prev [] = True"
| "smooth prev (t # ts) = (prev \<le> t \<and> t - prev \<le> 50 \<and> smooth t ts)"

section \<open>Arithmetic on finite numbers\<close>

lemma jsub_Num [simp]: "jsub (Num a) (Num b) = Num (a - b)"
  by (simp add: jsub_def)

lemma jmin_Num [simp]: "jmin (Num a) (Num b) = Num (min a b)"
  by (simp add: min_def)

lemma jmax_Num [simp]: "jmax (Num a) (Num b) = Num (max a b)"
  by (simp add: max_def)

lemma jgt_Num [simp]: "jgt (Num a) (Num b) = (b < a)"
  by (simp add: jgt_def)

lemma jge_Num [simp]: "jge (Num a) (Num b) = (b \<le> a)"
  by (simp add: jge_def)

lemma random_Num [simp]: "random (Num lo) (Num hi) r = Num (r * (hi - lo) + lo)"
  by (simp add: random_def)

lemma random_double_Num [simp]:
  "random_double (Num lo) (Num hi) r = Num (fl (fl (r * fl (hi - lo)) + lo))"
  by (simp add: random_double_def)

section \<open>Rounding to a double\<close>

text \<open>Within a binade \<open>fl\<close> rounds to a multiple of the unit of the binade.\<close>

lemma floor_log2:
  assumes "2 powr of_int e \<le> x" "x < 2 powr (of_int e + 1)"
  shows "\<lfloor>log 2 x\<rfloor> = e"
proof -
  have "0 < (2::real) powr of_int e" by simp
  with assms(1) have pos: "0 < x" by linarith
  have "of_int e \<le> log 2 x" using assms(1) pos by (simp add: le_log_iff)
  moreover have "log 2 x < of_int e + 1" using assms(2) pos by (simp add: log_less_iff)
  ultimately show ?thesis by (simp add: floor_eq_iff)
qed

lemma fl_binade:
  assumes "2 powr of_int e \<le> x" "x < 2 powr (of_int e + 1)"
  shows "fl x = of_int (round_even (x / 2 powr (of_int e - 52))) * 2 powr (of_int e - 52)"
proof -
  have "0 < (2::real) powr of_int e" by simp
  with assms(1) have pos: "0 < x" by linarith
  then show ?thesis using floor_log2 [OF assms] by (simp add: fl_def Let_def)
qed

lemma fl_1_2:
  assumes "1 \<le> x" "x < 2"
  shows "fl x = of_int (round_even (x * 2 ^ 52)) / 2 ^ 52"
proof -
  have u: "(2::real) powr (of_int 0 - 52) = 1 / 2 ^ 52"
    by (simp add: powr_minus_divide)
  have "(2::real) powr of_int 0 \<le> x" "x < 2 powr (of_int 0 + 1)" using assms by simp_all
  from fl_binade [OF this] show ?thesis unfolding u by simp
qed

lemma fl_2_4:
  assumes "2 \<le> x" "x < 4"
  shows "fl x = of_int (round_even (x * 2 ^ 51)) / 2 ^ 51"
proof -
  have u: "(2::real) powr (of_int 1 - 52) = 1 / 2 ^ 51"
    by (simp add: powr_minus_divide)
  have "(2::real) powr 2 = 4" by (simp add: powr_numeral)
  then have "(2::real) powr of_int 1 \<le> x" "x < 2 powr (of_int 1 + 1)" using assms by simp_all
  from fl_binade [OF this] show ?thesis unfolding u by simp
qed

lemma fl_2: "fl 2 = 2"
  by (simp add: fl_2_4 round_even_def)

lemma random_double_edge: "random_double (Num 2) (Num 4) (1 - 1 / 2 ^ 53) = Num 4"
proof -
  have s1: "fl (4 - 2) = 2"
    by (simp add: fl_2)
  have s2: "fl ((1 - 1 / 2 ^ 53) * 2) = 2 - 1 / 2 ^ 52"
    by (simp add: fl_1_2 round_even_def)
  have s3: "fl ((2 - 1 / 2 ^ 52) + 2) = 4"
    by (simp add: fl_2_4 round_even_def)
  show ?thesis
    by (simp only: random_double_Num s1 s2 s3)
qed

lemma round_even_bounds: "\<lfloor>q\<rfloor> \<le> round_even q \<and> round_even q \<le> \<lfloor>q\<rfloor> + 1"
  by (simp add: round_even_def Let_def)

text \<open>Rounding stays within the binade, ends included.\<close>

lemma fl_binade_bounds:
  assumes "2 powr of_int e \<le> x" "x < 2 powr (of_int e + 1)"
  shows "2 powr of_int e \<le> fl x \<and> fl x \<le> 2 powr (of_int e + 1)"
proof -
  let ?u = "2 powr (of_int e - 52) :: real"
  have u: "0 < ?u" by simp
  have lo: "2 powr of_int e = 2 ^ 52 * ?u" and hi: "2 powr (of_int e + 1) = 2 ^ 53 * ?u"
    by (simp_all add: powr_diff powr_add)
  have "2 ^ 52 \<le> x / ?u" using assms(1) u unfolding lo by (simp add: pos_le_divide_eq)
  then have "(2 ^ 52 :: int) \<le> \<lfloor>x / ?u\<rfloor>" by (simp add: le_floor_iff)
  then have a: "(2 ^ 52 :: int) \<le> round_even (x / ?u)" using round_even_bounds [of "x / ?u"] by linarith
  have "x / ?u < 2 ^ 53" using assms(2) u unfolding hi by (simp add: pos_divide_less_eq)
  then have "\<lfloor>x / ?u\<rfloor> < (2 ^ 53 :: int)" by (simp add: floor_less_iff)
  then have b: "round_even (x / ?u) \<le> (2 ^ 53 :: int)" using round_even_bounds [of "x / ?u"] by linarith
  have "(2 ^ 52 :: real) \<le> of_int (round_even (x / ?u))" using a by (simp add: of_int_le_iff [symmetric] del: of_int_le_iff)
  then have A: "2 ^ 52 * ?u \<le> of_int (round_even (x / ?u)) * ?u" using u by (simp add: mult_right_mono)
  have "of_int (round_even (x / ?u)) \<le> (2 ^ 53 :: real)" using b by (simp add: of_int_le_iff [symmetric] del: of_int_le_iff)
  then have B: "of_int (round_even (x / ?u)) * ?u \<le> 2 ^ 53 * ?u" using u by (simp add: mult_right_mono)
  show ?thesis unfolding fl_binade [OF assms] using A B unfolding lo hi by simp
qed


lemma binade_of:
  assumes "0 < x"
  shows "2 powr of_int \<lfloor>log 2 x\<rfloor> \<le> x \<and> x < 2 powr (of_int \<lfloor>log 2 x\<rfloor> + 1)"
proof -
  have "of_int \<lfloor>log 2 x\<rfloor> \<le> log 2 x" by simp
  then have a: "2 powr of_int \<lfloor>log 2 x\<rfloor> \<le> x" using assms by (simp add: powr_le_iff)
  have "log 2 x < of_int \<lfloor>log 2 x\<rfloor> + 1" by linarith
  then have b: "x < 2 powr (of_int \<lfloor>log 2 x\<rfloor> + 1)" using assms by (simp add: less_powr_iff)
  from a b show ?thesis ..
qed

lemma fl_below_2:
  assumes "0 \<le> y" "y < 2"
  shows "0 \<le> fl y \<and> fl y \<le> 2"
proof (cases "y = 0")
  case True
  then show ?thesis by (simp add: fl_def)
next
  case False
  with assms have pos: "0 < y" by simp
  let ?e = "\<lfloor>log 2 y\<rfloor>"
  note b = binade_of [OF pos]
  from fl_binade_bounds [of ?e y] b
  have r: "2 powr of_int ?e \<le> fl y" "fl y \<le> 2 powr (of_int ?e + 1)" by simp_all
  have "log 2 y < 1" using assms(2) pos by (simp add: log_less_iff)
  then have "?e \<le> 0" by (simp add: floor_le_iff)
  then have "of_int ?e + 1 \<le> (1::real)" by simp
  then have "(2::real) powr (of_int ?e + 1) \<le> 2 powr 1" by (simp only: powr_le_cancel_iff) 
  with r(2) have "fl y \<le> 2" by simp
  moreover have "0 < (2::real) powr of_int ?e" by simp
  with r(1) have "0 \<le> fl y" by linarith
  ultimately show ?thesis by simp
qed

lemma fl_2_to_4:
  assumes "2 \<le> z" "z \<le> 4"
  shows "2 \<le> fl z \<and> fl z \<le> 4"
proof (cases "z = 4")
  case True
  have u: "(2::real) powr (of_int 2 - 52) = 1 / 2 ^ 50" by (simp add: powr_minus_divide)
  have p: "(2::real) powr 2 = 4" "(2::real) powr 3 = 8" by (simp_all add: powr_numeral)
  then have "(2::real) powr of_int 2 \<le> 4" "(4::real) < 2 powr (of_int 2 + 1)" by simp_all
  from fl_binade [OF this] have "fl 4 = 4" unfolding u by (simp add: round_even_def)
  with True show ?thesis by simp
next
  case False
  have p: "(2::real) powr 2 = 4" by (simp add: powr_numeral)
  then have "(2::real) powr of_int 1 \<le> z" "z < 2 powr (of_int 1 + 1)" using assms False by simp_all
  from fl_binade_bounds [OF this] show ?thesis using p by simp
qed

text \<open>
  \<^verbatim>\<open>Math.floor(random(2, 4))\<close> on a draw of \<open>[0, 1)\<close> is 2, 3 or 4, and it is 4 on the
  largest double below 1: \<open>r * 2 + 2\<close> is then halfway between two doubles, and the even
  one is 4.
\<close>

lemma burst_count:
  assumes "0 \<le> r" "r < 1"
  shows "\<exists>n. jfloor (random_double (Num 2) (Num 4) r) = Num (of_int n) \<and> (n = 2 \<or> n = 3 \<or> n = 4)"
proof -
  let ?y = "fl (r * 2)" and ?z = "fl (fl (r * 2) + 2)"
  have "0 \<le> r * 2" "r * 2 < 2" using assms by simp_all
  from fl_below_2 [OF this] have "2 \<le> ?y + 2" "?y + 2 \<le> 4" by simp_all
  from fl_2_to_4 [OF this] have z: "2 \<le> ?z" "?z \<le> 4" by simp_all
  then have "2 \<le> \<lfloor>?z\<rfloor>" "\<lfloor>?z\<rfloor> \<le> 4" by (simp_all add: le_floor_iff floor_le_iff)
  then have "\<lfloor>?z\<rfloor> = 2 \<or> \<lfloor>?z\<rfloor> = 3 \<or> \<lfloor>?z\<rfloor> = 4" by linarith
  then show ?thesis by (simp add: fl_2)
qed

section \<open>The surface: resizeCanvas\<close>

lemma or_one_cases:
  "or_one d = (if d = None \<or> d = Some NaN \<or> d = Some (Num 0) then Num 1 else the d)"
  by (cases d rule: or_one.cases) auto

text \<open>
  C8. \<open>resizeCanvas\<close> takes the scale to be the smaller of 2 and the device pixel ratio
  (1 when the ratio is falsy: undefined, NaN or zero), sets the canvas to
  \<open>floor (W * scale)\<close> by \<open>floor (H * scale)\<close> pixels, its displayed size to \<open>W\<close> px by
  \<open>H\<close> px, and the transform of the context to the uniform scaling
  \<open>(scale, 0, 0, scale, 0, 0)\<close>.
\<close>

theorem resizeCanvas_surface:
  "devicePixelRatioScale (resizeCanvas e st) =
     jmin (Num 2) (if devicePixelRatio e = None \<or> devicePixelRatio e = Some NaN
                      \<or> devicePixelRatio e = Some (Num 0)
                   then Num 1 else the (devicePixelRatio e))
   \<and> canvas_width (resizeCanvas e st) =
       jfloor (jmul (innerWidth e) (devicePixelRatioScale (resizeCanvas e st)))
   \<and> canvas_height (resizeCanvas e st) =
       jfloor (jmul (innerHeight e) (devicePixelRatioScale (resizeCanvas e st)))
   \<and> style_width (resizeCanvas e st) = Px (innerWidth e)
   \<and> style_height (resizeCanvas e st) = Px (innerHeight e)
   \<and> transform (resizeCanvas e st) =
       (devicePixelRatioScale (resizeCanvas e st), Num 0, Num 0,
        devicePixelRatioScale (resizeCanvas e st), Num 0, Num 0)"
  by (simp add: resizeCanvas_def Let_def or_one_cases)

text \<open>
  C9. \<open>resizeCanvas\<close> is idempotent: with the window unchanged, a second call leaves the
  state of the first (scale, canvas resolution, displayed size, transform and all the
  rest) as it is.
\<close>

theorem resizeCanvas_idempotent:
  "resizeCanvas e (resizeCanvas e st) = resizeCanvas e st"
  by (simp add: resizeCanvas_def Let_def)

text \<open>
  C10. \<open>resizeCanvas\<close> leaves the array of circles as it is, element by element, and
  changes nothing of the state but the scale, the canvas resolution, the displayed size
  and the transform.
\<close>

theorem resizeCanvas_keeps_circles:
  "circles (resizeCanvas e st) = circles st
   \<and> lastSpawn (resizeCanvas e st) = lastSpawn st
   \<and> lastNow (resizeCanvas e st) = lastNow st
   \<and> globalAlpha (resizeCanvas e st) = globalAlpha st
   \<and> rnd_used (resizeCanvas e st) = rnd_used st
   \<and> clk_used (resizeCanvas e st) = clk_used st
   \<and> resizeCanvas e st =
         st\<lparr>devicePixelRatioScale := devicePixelRatioScale (resizeCanvas e st),
            canvas_width := canvas_width (resizeCanvas e st),
            canvas_height := canvas_height (resizeCanvas e st),
            style_width := style_width (resizeCanvas e st),
            style_height := style_height (resizeCanvas e st),
            transform := transform (resizeCanvas e st)\<rparr>"
  by (simp add: resizeCanvas_def Let_def)

lemma init_fields [simp]:
  "circles (init e) = []" "lastSpawn (init e) = Num 0" "lastNow (init e) = Num 0"
  "rnd_used (init e) = 0" "clk_used (init e) = 0"
  by (simp_all add: init_def resizeCanvas_def declared_def Let_def)

section \<open>spawnCircle: the radius and the position\<close>

lemma minRadius_Num:
  "innerWidth e = Num W \<Longrightarrow> innerHeight e = Num H \<Longrightarrow>
   minRadius e = Num (max 20 (min W H * 0.01))"
  by (simp add: minRadius_def)

lemma maxRadius_Num:
  "innerWidth e = Num W \<Longrightarrow> innerHeight e = Num H \<Longrightarrow>
   maxRadius e = Num (max W H * 0.08)"
  by (simp add: maxRadius_def)

lemma circles_spawnCircle:
  "circles (spawnCircle g e st) = circles st @ [new_circle g e (rnd_used st) (clk_used st)]"
  by (simp add: spawnCircle_def)

lemma lastSpawn_spawnCircle: "lastSpawn (spawnCircle g e st) = lastSpawn st"
  by (simp add: spawnCircle_def)

lemma last_spawnCircle:
  "last (circles (spawnCircle g e st)) = new_circle g e (rnd_used st) (clk_used st)"
  by (simp add: spawnCircle_def)

lemma radius_new_circle:
  "radius (new_circle g e k j) = random (minRadius e) (maxRadius e) (rnd e k)"
  by (simp add: new_circle_def Let_def)

lemma c_x_new_circle:
  "c_x (new_circle g e k j) =
     random (jneg (radius (new_circle g e k j)))
       (jadd (innerWidth e) (radius (new_circle g e k j))) (rnd e (k + 1))"
  by (simp add: new_circle_def Let_def)

lemma c_y_new_circle:
  "c_y (new_circle g e k j) =
     random (jneg (radius (new_circle g e k j)))
       (jadd (innerHeight e) (radius (new_circle g e k j))) (rnd e (k + 2))"
  by (simp add: new_circle_def Let_def)

text \<open>\<open>r * (hi - lo) + lo\<close> for a draw \<open>r\<close> of \<open>[0, 1)\<close>.\<close>

lemma mix_between:
  fixes r lo hi :: real
  assumes "0 \<le> r" "r < 1" "lo \<le> hi"
  shows "lo \<le> r * (hi - lo) + lo" and "r * (hi - lo) + lo \<le> hi"
proof -
  from assms show "lo \<le> r * (hi - lo) + lo" by simp
  have "r * (hi - lo) \<le> 1 * (hi - lo)"
    using assms by (intro mult_right_mono) auto
  then show "r * (hi - lo) + lo \<le> hi" by simp
qed

lemma mix_positive:
  fixes r lo hi :: real
  assumes "0 \<le> r" "r < 1" "0 < lo" "0 \<le> hi"
  shows "0 < r * (hi - lo) + lo"
proof -
  have "r * (hi - lo) + lo = (1 - r) * lo + r * hi" by (simp add: algebra_simps)
  moreover have "0 < (1 - r) * lo" using assms by simp
  moreover have "0 \<le> r * hi" using assms by simp
  ultimately show ?thesis by linarith
qed

text \<open>
  The two bounds are in order exactly when the longer side of the window is at least
  250 pixels.
\<close>

lemma radius_bounds_ordered:
  assumes "innerWidth e = Num W" "innerHeight e = Num H" "0 \<le> W" "0 \<le> H"
  shows "jle (minRadius e) (maxRadius e) = (250 \<le> max W H)"
  unfolding minRadius_Num [OF assms(1,2)] maxRadius_Num [OF assms(1,2)]
  using assms(3,4) by (auto simp add: max_def min_def)

text \<open>
  C5. At a window of 100 by 100 pixels and a draw of \<open>1/2\<close>, \<open>minRadius\<close> is 20,
  \<open>maxRadius\<close> is 8 and \<^verbatim>\<open>random(minRadius, maxRadius)\<close> is 14: the radius of the circle
  that \<open>spawnCircle\<close> appends is below \<open>minRadius\<close>, and so not in
  \<open>[minRadius, maxRadius]\<close>.
\<close>

theorem spawnCircle_radius_small_window:
  "minRadius small = Num 20 \<and> maxRadius small = Num 8
   \<and> radius (last (circles (spawnCircle ranges1 small (init small)))) = Num 14
   \<and> \<not> (jle (minRadius small) (radius (last (circles (spawnCircle ranges1 small (init small)))))
        \<and> jle (radius (last (circles (spawnCircle ranges1 small (init small)))))
             (maxRadius small))"
  by (simp add: last_spawnCircle radius_new_circle minRadius_def maxRadius_def small_def
      init_def resizeCanvas_def declared_def)

text \<open>
  On every window whose longer side is below 250 pixels \<open>minRadius\<close> is 20 and the radius
  is below it, for every draw but 0.
\<close>

lemma spawnCircle_radius_below_floor:
  assumes W: "innerWidth e = Num W" and H: "innerHeight e = Num H"
    and small: "max W H < 250"
    and r: "0 < rnd e (rnd_used st)" "rnd e (rnd_used st) < 1"
  shows "minRadius e = Num 20
       \<and> (\<exists>\<rho>. radius (last (circles (spawnCircle g e st))) = Num \<rho> \<and> \<rho> < 20)"
proof -
  let ?hi = "max W H * 0.08" and ?r = "rnd e (rnd_used st)"
  have "min W H < 250" using small by (auto simp add: min_def)
  then have "min W H * 0.01 \<le> 20" by simp
  then have lo: "max 20 (min W H * 0.01) = 20" by (simp only: max_absorb1)
  have hi: "?hi < 20" using small by simp
  then have "?r * (?hi - 20) < 0" using r(1) by (simp add: mult_pos_neg)
  then have "?r * (?hi - 20) + 20 < 20" by simp
  moreover have "radius (last (circles (spawnCircle g e st))) = Num (?r * (?hi - 20) + 20)"
    unfolding last_spawnCircle radius_new_circle minRadius_Num [OF W H] maxRadius_Num [OF W H] lo
    by simp
  ultimately show ?thesis unfolding minRadius_Num [OF W H] lo by blast
qed

text \<open>
  Where the two bounds are in order, the radius lies between them: for a window of finite
  sides with \<open>minRadius \<le> maxRadius\<close> the radius of the circle that \<open>spawnCircle\<close> appends
  lies in \<open>[minRadius, maxRadius]\<close>, and for a window of 1000 by 800 it lies in \<open>[20, 80]\<close>.
\<close>

theorem spawnCircle_radius:
  assumes W: "innerWidth e = Num W" and H: "innerHeight e = Num H"
    and r: "0 \<le> rnd e (rnd_used st)" "rnd e (rnd_used st) < 1"
    and ord: "jle (minRadius e) (maxRadius e)"
  shows "jle (minRadius e) (radius (last (circles (spawnCircle g e st))))
       \<and> jle (radius (last (circles (spawnCircle g e st)))) (maxRadius e)"
proof -
  let ?lo = "max 20 (min W H * 0.01)" and ?hi = "max W H * 0.08"
  have lo: "minRadius e = Num ?lo" and hi: "maxRadius e = Num ?hi"
    using W H by (rule minRadius_Num, rule maxRadius_Num)
  from ord have "?lo \<le> ?hi" unfolding lo hi by simp
  from mix_between [OF r this] show ?thesis
    unfolding last_spawnCircle radius_new_circle lo hi by simp
qed

theorem spawnCircle_radius_witness:
  "minRadius desktop = Num 20 \<and> maxRadius desktop = Num 80
   \<and> jle (Num 20) (radius (last (circles (spawnCircle ranges1 desktop (init desktop)))))
   \<and> jle (radius (last (circles (spawnCircle ranges1 desktop (init desktop))))) (Num 80)"
proof -
  have lo: "minRadius desktop = Num 20" and hi: "maxRadius desktop = Num 80"
    by (simp_all add: minRadius_def maxRadius_def desktop_def)
  have "jle (minRadius desktop) (maxRadius desktop)" unfolding lo hi by simp
  from spawnCircle_radius [of desktop 1000 800 "init desktop" ranges1, OF _ _ _ _ this]
  show ?thesis unfolding lo hi by (simp add: desktop_def)
qed

text \<open>The radius drawn is positive on every window whose sides are not negative.\<close>

lemma radius_positive:
  assumes W: "innerWidth e = Num W" and H: "innerHeight e = Num H"
    and pos: "0 \<le> W" "0 \<le> H" and r: "0 \<le> rnd e k" "rnd e k < 1"
  obtains \<rho> where "radius (new_circle g e k j) = Num \<rho>" and "0 < \<rho>"
proof -
  let ?lo = "max 20 (min W H * 0.01)" and ?hi = "max W H * 0.08"
  have "0 < ?lo" by simp
  moreover have "0 \<le> ?hi" using pos by simp
  ultimately have "0 < rnd e k * (?hi - ?lo) + ?lo" by (rule mix_positive [OF r])
  moreover have "radius (new_circle g e k j) = Num (rnd e k * (?hi - ?lo) + ?lo)"
    unfolding radius_new_circle minRadius_Num [OF W H] maxRadius_Num [OF W H] by simp
  ultimately show thesis by (rule that [rotated])
qed

text \<open>
  C6. For a window of finite sides \<open>W\<close> and \<open>H\<close>, neither negative, the circle that
  \<open>spawnCircle\<close> appends has its centre in
  \<open>[-radius, W + radius] \<times> [-radius, H + radius]\<close>, for its own radius.
\<close>

theorem spawnCircle_position:
  assumes W: "innerWidth e = Num W" and H: "innerHeight e = Num H"
    and pos: "0 \<le> W" "0 \<le> H" and draws: "unit_draws e"
    and c: "c = last (circles (spawnCircle g e st))"
  shows "jle (jneg (radius c)) (c_x c) \<and> jle (c_x c) (jadd (innerWidth e) (radius c))
       \<and> jle (jneg (radius c)) (c_y c) \<and> jle (c_y c) (jadd (innerHeight e) (radius c))"
proof -
  let ?k = "rnd_used st" and ?j = "clk_used st"
  have r: "\<And>n. 0 \<le> rnd e n" "\<And>n. rnd e n < 1"
    using draws by (simp_all add: unit_draws_def)
  obtain \<rho> where rad: "radius (new_circle g e ?k ?j) = Num \<rho>" and \<rho>: "0 < \<rho>"
    using radius_positive [OF W H pos r(1) r(2)] by blast
  have cn: "c = new_circle g e ?k ?j" using c by (simp add: last_spawnCircle)
  have x: "c_x c = Num (rnd e (?k + 1) * ((W + \<rho>) - (- \<rho>)) + (- \<rho>))"
    unfolding cn c_x_new_circle rad W by simp
  have y: "c_y c = Num (rnd e (?k + 2) * ((H + \<rho>) - (- \<rho>)) + (- \<rho>))"
    unfolding cn c_y_new_circle rad H by simp
  have "- \<rho> \<le> W + \<rho>" "- \<rho> \<le> H + \<rho>" using pos \<rho> by simp_all
  from mix_between [OF r(1) r(2) this(1)] mix_between [OF r(1) r(2) this(2)]
  show ?thesis unfolding x y W H using rad cn by simp
qed

theorem spawnCircle_position_witness:
  "jle (Num (- 50)) (c_x (last (circles (spawnCircle ranges2 desktop (init desktop)))))
   \<and> jle (c_x (last (circles (spawnCircle ranges2 desktop (init desktop))))) (Num 1050)
   \<and> jle (Num (- 50)) (c_y (last (circles (spawnCircle ranges2 desktop (init desktop)))))
   \<and> jle (c_y (last (circles (spawnCircle ranges2 desktop (init desktop))))) (Num 850)"
proof -
  have rad: "radius (last (circles (spawnCircle ranges2 desktop (init desktop)))) = Num 50"
    by (simp add: last_spawnCircle radius_new_circle minRadius_def maxRadius_def desktop_def)
  have "unit_draws desktop" by (simp add: unit_draws_def desktop_def)
  from spawnCircle_position [of desktop 1000 800 _ ranges2 "init desktop", OF _ _ _ _ this refl]
  show ?thesis unfolding rad by (simp add: desktop_def)
qed

section \<open>The spawn step of a frame\<close>

text \<open>The loop of the spawn step ends for every finite count.\<close>

lemma spawn_loop_finite:
  "nat \<lceil>x - real i\<rceil> = n \<Longrightarrow>
   spawn_loop g e i (Num x) st = Some ((spawnCircle g e ^^ n) st)"
proof (induction n arbitrary: i st)
  case 0
  then have "\<not> real i < x" by simp
  then show ?case by (subst spawn_loop.simps) simp
next
  case (Suc n)
  then have "0 < \<lceil>x - real i\<rceil>" by linarith
  then have lt: "real i < x" by (simp add: zero_less_ceiling)
  have "x - real (i + 1) = (x - real i) - 1" by simp
  then have "\<lceil>x - real (i + 1)\<rceil> = \<lceil>x - real i\<rceil> - 1" by (simp only: ceiling_diff_one)
  with Suc.prems have "nat \<lceil>x - real (i + 1)\<rceil> = n" by simp
  from Suc.IH [OF this] lt show ?case
    by (subst spawn_loop.simps) (simp add: funpow_swap1)
qed

lemma spawn_loop_Num:
  "spawn_loop g e 0 (Num x) st = Some ((spawnCircle g e ^^ nat \<lceil>x\<rceil>) st)"
  by (rule spawn_loop_finite) simp

lemma circles_spawn_funpow:
  "\<exists>cs. circles ((spawnCircle g e ^^ n) st) = circles st @ cs \<and> length cs = n"
proof (induction n)
  case 0
  show ?case by simp
next
  case (Suc n)
  then obtain cs where "circles ((spawnCircle g e ^^ n) st) = circles st @ cs" "length cs = n"
    by blast
  then show ?case by (simp add: circles_spawnCircle)
qed

lemma lastSpawn_spawn_funpow: "lastSpawn ((spawnCircle g e ^^ n) st) = lastSpawn st"
  by (induction n) (simp_all add: lastSpawn_spawnCircle)

lemma length_spawn_funpow:
  "length (circles ((spawnCircle g e ^^ n) st)) = length (circles st) + n"
  by (induction n) (simp_all add: circles_spawnCircle)

lemma edge_count: "spawn_count edge 0 = (Num 4, 2)"
proof -
  have "rnd edge 0 = 1 / 8" "rnd edge (0 + 1) = 1 - 1 / 2 ^ 53" by (simp_all add: edge_def)
  then show ?thesis
    unfolding spawn_count_def by (simp only: random_double_edge) simp
qed

text \<open>
  The spawn step returns, and appends circles only when \<open>now - lastSpawn > 400\<close>; it then
  sets \<open>lastSpawn\<close> to \<open>now\<close> and appends one circle when the draw of \<^verbatim>\<open>Math.random()\<close> is
  at least 0.2, and two, three or four when the draw is below 0.2.
\<close>

lemma spawn_step_count_range:
  assumes "unit_draws e"
  shows "\<exists>st' new. spawn_step g e now st = Some st'
     \<and> circles st' = circles st @ new
     \<and> (if jgt (jsub now (lastSpawn st)) (Num 400)
         then lastSpawn st' = now
            \<and> (if rnd e (rnd_used st) < 0.2
                then length new = 2 \<or> length new = 3 \<or> length new = 4
                else length new = 1)
         else st' = st \<and> new = [])"
proof (cases "jgt (jsub now (lastSpawn st)) (Num 400)")
  case False
  then show ?thesis by (simp add: spawn_step_def)
next
  case True
  let ?st0 = "st\<lparr>lastSpawn := now, rnd_used := snd (spawn_count e (rnd_used st))\<rparr>"
  have "0 \<le> rnd e (rnd_used st + 1)" "rnd e (rnd_used st + 1) < 1"
    using assms by (simp_all add: unit_draws_def)
  from burst_count [OF this] obtain m where
    m: "jfloor (random_double (Num 2) (Num 4) (rnd e (rnd_used st + 1))) = Num (of_int m)"
      "m = 2 \<or> m = 3 \<or> m = 4" by blast
  obtain x where x: "fst (spawn_count e (rnd_used st)) = Num x"
    and n: "if rnd e (rnd_used st) < 0.2 then nat \<lceil>x\<rceil> = 2 \<or> nat \<lceil>x\<rceil> = 3 \<or> nat \<lceil>x\<rceil> = 4
            else nat \<lceil>x\<rceil> = 1"
  proof (cases "rnd e (rnd_used st) < 0.2")
    case True
    then have "fst (spawn_count e (rnd_used st)) = Num (of_int m)"
      using m(1) by (simp add: spawn_count_def del: random_double_Num)
    moreover have "nat \<lceil>of_int m :: real\<rceil> = 2 \<or> nat \<lceil>of_int m :: real\<rceil> = 3 \<or> nat \<lceil>of_int m :: real\<rceil> = 4"
      using m(2) by auto
    ultimately show ?thesis using True that by simp
  next
    case False
    then have "fst (spawn_count e (rnd_used st)) = Num 1" by (simp add: spawn_count_def)
    then show ?thesis using False that [of 1] by simp
  qed
  have step: "spawn_step g e now st = Some ((spawnCircle g e ^^ nat \<lceil>x\<rceil>) ?st0)"
    using True x by (simp add: spawn_step_def split_beta spawn_loop_Num)
  obtain new where new: "circles ((spawnCircle g e ^^ nat \<lceil>x\<rceil>) ?st0) = circles ?st0 @ new"
    "length new = nat \<lceil>x\<rceil>"
    using circles_spawn_funpow by blast
  show ?thesis
    using True step new n by (auto simp add: lastSpawn_spawn_funpow)
qed

text \<open>The spawn step returns whatever the draws are: the count is a finite number.\<close>

lemma spawn_step_returns: "\<exists>st1. spawn_step g e now st = Some st1"
  by (simp add: spawn_step_def spawn_count_def spawn_loop_Num split_beta)

section \<open>The opacity of a circle\<close>

lemma alpha_safe_unit: "0 \<le> a \<Longrightarrow> a \<le> 1 \<Longrightarrow> alpha_safe (Num a) = Num a"
  by (simp add: alpha_safe_def)

lemma alpha_safe_range: "\<exists>u. alpha_safe a = Num u \<and> 0 \<le> u \<and> u \<le> 1"
  by (cases a) (simp_all add: alpha_safe_def)

text \<open>On a progress of \<open>[0, 1)\<close> each branch of the chain gives a number of \<open>[0, 1]\<close>.\<close>

lemma fade_in_unit:
  assumes "0 \<le> t" "jlt (Num t) fi"
  shows "\<exists>a. jdiv (Num t) fi = Num a \<and> 0 \<le> a \<and> a \<le> 1"
proof (cases fi)
  case (Num f)
  with assms have "t < f" by simp
  with assms(1) have "0 < f" "t / f \<le> 1" by simp_all
  with assms(1) Num show ?thesis by simp
qed (use assms in simp_all)

lemma fade_out_unit:
  assumes "t < 1" "jgt (Num t) (jsub (Num 1) fo)"
  shows "\<exists>a. jdiv (jsub (Num 1) (Num t)) fo = Num a \<and> 0 \<le> a \<and> a \<le> 1"
proof (cases fo)
  case (Num f)
  with assms have "1 - f < t" by simp
  with assms(1) have "0 < f" "(1 - t) / f \<le> 1" by simp_all
  with assms(1) Num show ?thesis by simp
qed (use assms in \<open>simp_all add: jgt_def jsub_def\<close>)

lemma alpha_fade_unit:
  assumes "0 \<le> t" "t < 1"
  shows "\<exists>a. alpha_fade c (Num t) = Num a \<and> 0 \<le> a \<and> a \<le> 1"
  using fade_in_unit [OF assms(1)] fade_out_unit [OF assms(2)]
  by (auto simp add: alpha_fade_def)

lemma alpha1_eq_alpha2:
  assumes "0 \<le> t" "t < 1"
  shows "alpha1 c (Num t) = alpha2 c (Num t)"
  using alpha_fade_unit [OF assms, of c] by (auto simp add: alpha1_def alpha2_def alpha_safe_unit)

text \<open>
  C3. For a circle whose progress \<open>t = age / lifeMs\<close> lies in \<open>[0, 1)\<close>, the opacity before
  the dimming factor is the same in both closures, and it is \<open>t / fadeInPortion\<close> when
  \<open>t < fadeInPortion\<close>, else \<open>(1 - t) / fadeOutPortion\<close> when \<open>t > 1 - fadeOutPortion\<close>,
  else exactly 1. The first two cases exclude each other when
  \<open>fadeInPortion + fadeOutPortion \<le> 1\<close>, as for every circle of \<open>spawnCircle\<close>. The
  witness is the scenario: a lifetime of 10000 and fades of 0.25 give 0.4 at the age
  1000, 1 at 5000 and 0.2 at 9500.
\<close>

theorem alpha_piecewise:
  assumes t: "jdiv a (lifeMs c) = Num t" and range: "0 \<le> t" "t < 1"
  shows "alpha1 c (jdiv a (lifeMs c)) = alpha2 c (jdiv a (lifeMs c))
    \<and> (jlt (Num t) (fadeInPortion c) \<longrightarrow>
         alpha2 c (jdiv a (lifeMs c)) = jdiv (Num t) (fadeInPortion c))
    \<and> (\<not> jlt (Num t) (fadeInPortion c) \<and> jgt (Num t) (jsub (Num 1) (fadeOutPortion c)) \<longrightarrow>
         alpha2 c (jdiv a (lifeMs c)) = jdiv (jsub (Num 1) (Num t)) (fadeOutPortion c))
    \<and> (\<not> jlt (Num t) (fadeInPortion c) \<and> \<not> jgt (Num t) (jsub (Num 1) (fadeOutPortion c)) \<longrightarrow>
         alpha2 c (jdiv a (lifeMs c)) = Num 1)
    \<and> (jle (jadd (fadeInPortion c) (fadeOutPortion c)) (Num 1)
         \<and> jgt (Num t) (jsub (Num 1) (fadeOutPortion c)) \<longrightarrow> \<not> jlt (Num t) (fadeInPortion c))"
proof -
  have "jle (jadd fi fo) (Num 1) \<and> jgt (Num t) (jsub (Num 1) fo) \<longrightarrow> \<not> jlt (Num t) fi" for fi fo
    by (cases fi; cases fo) (auto simp add: jgt_def jsub_def)
  then show ?thesis
    unfolding t using alpha1_eq_alpha2 [OF range, of c] by (simp add: alpha2_def alpha_fade_def)
qed

theorem alpha_piecewise_witness:
  "alpha1 sample (jdiv (Num 1000) (lifeMs sample)) = Num 0.4
   \<and> alpha2 sample (jdiv (Num 1000) (lifeMs sample)) = Num 0.4
   \<and> alpha1 sample (jdiv (Num 5000) (lifeMs sample)) = Num 1
   \<and> alpha2 sample (jdiv (Num 5000) (lifeMs sample)) = Num 1
   \<and> alpha1 sample (jdiv (Num 9500) (lifeMs sample)) = Num 0.2
   \<and> alpha2 sample (jdiv (Num 9500) (lifeMs sample)) = Num 0.2"
proof -
  have a: "jdiv (Num 1000) (lifeMs sample) = Num 0.1"
    and b: "jdiv (Num 5000) (lifeMs sample) = Num 0.5"
    and c: "jdiv (Num 9500) (lifeMs sample) = Num 0.95"
    by (simp_all add: sample_def)
  from alpha_piecewise [OF a] alpha_piecewise [OF b] alpha_piecewise [OF c]
  show ?thesis by (simp add: sample_def)
qed

section \<open>The loop over the circles\<close>

text \<open>
  The loop from the last index down keeps, in their order, the circles that are not
  expired, and draws them from the last to the first.
\<close>

lemma render2_result:
  "k \<le> length cs \<Longrightarrow>
   render2 now k cs =
     (filter (\<lambda>c. \<not> expired now c) (take k cs) @ drop k cs,
      map (draw2 now) (rev (filter (\<lambda>c. \<not> expired now c) (take k cs))))"
proof (induction k arbitrary: cs)
  case 0
  show ?case by simp
next
  case (Suc i)
  then have i: "i < length cs" by simp
  show ?case
  proof (cases "expired now (cs ! i)")
    case True
    have "i \<le> length (take i cs @ drop (Suc i) cs)" using i by simp
    from Suc.IH [OF this] True i show ?thesis
      by (simp add: take_Suc_conv_app_nth)
  next
    case False
    have "i \<le> length cs" using i by simp
    from Suc.IH [OF this] False i show ?thesis
      by (simp add: take_Suc_conv_app_nth Cons_nth_drop_Suc)
  qed
qed

lemma render1_result:
  "k \<le> length cs \<Longrightarrow>
   render1 now dl k cs =
     (filter (\<lambda>c. \<not> expired now c) (map (advance dl) (take k cs)) @ drop k cs,
      map (draw1 now) (rev (filter (\<lambda>c. \<not> expired now c) (map (advance dl) (take k cs)))))"
proof (induction k arbitrary: cs)
  case 0
  show ?case by simp
next
  case (Suc i)
  then have i: "i < length cs" by simp
  let ?c = "advance dl (cs ! i)" and ?cs1 = "cs[i := advance dl (cs ! i)]"
  have tk: "take i ?cs1 = take i cs" and dr: "drop (Suc i) ?cs1 = drop (Suc i) cs"
    and di: "drop i ?cs1 = ?c # drop (Suc i) cs"
    using i
    by (simp_all add: drop_update_cancel Cons_nth_drop_Suc [symmetric] upd_conv_take_nth_drop)
  show ?case
  proof (cases "expired now ?c")
    case True
    have "i \<le> length (take i ?cs1 @ drop (Suc i) ?cs1)" using i by simp
    from Suc.IH [OF this] True i show ?thesis
      by (simp add: take_Suc_conv_app_nth tk dr Let_def)
  next
    case False
    have "i \<le> length ?cs1" using i by simp
    from Suc.IH [OF this] False i show ?thesis
      by (simp add: take_Suc_conv_app_nth tk di Let_def)
  qed
qed

lemma animate1_unfold:
  "spawn_step ranges1 e now (st\<lparr>lastNow := now\<rparr>) = Some st1 \<Longrightarrow>
   animate1 e now st =
     Some (st1\<lparr>circles := filter (\<lambda>c. \<not> expired now c)
                    (map (advance (delta now (lastNow st))) (circles st1)),
               globalAlpha := Num 1\<rparr>,
           ClearRect (Num 0) (Num 0) (jdiv (canvas_width st) (devicePixelRatioScale st))
              (jdiv (canvas_height st) (devicePixelRatioScale st))
           # map (draw1 now) (rev (filter (\<lambda>c. \<not> expired now c)
                    (map (advance (delta now (lastNow st))) (circles st1)))))"
  by (simp add: animate1_def Let_def render1_result)

lemma animate2_unfold:
  "spawn_step ranges2 e now st = Some st1 \<Longrightarrow>
   animate2 e now st =
     Some (st1\<lparr>circles := filter (\<lambda>c. \<not> expired now c) (circles st1),
               globalAlpha := Num 1\<rparr>,
           ClearRect (Num 0) (Num 0) (jdiv (canvas_width st) (devicePixelRatioScale st))
              (jdiv (canvas_height st) (devicePixelRatioScale st))
           # map (draw2 now) (rev (filter (\<lambda>c. \<not> expired now c) (circles st1))))"
  by (simp add: animate2_def Let_def render2_result)

section \<open>Frames on concrete inputs\<close>

lemmas frame_eval = animate1_def animate2_def spawn_step_def spawn_count_def spawn_loop_Num
  spawnCircle_def new_circle_def minRadius_def maxRadius_def ranges1_def ranges2_def
  delta_def advance_def age_def expired_def Let_def

text \<open>
  C7, in both closures. The frame at 1000 ms, the first to spawn, with a first draw of
  \<open>1/8\<close>, which is below 0.2, and a second draw of \<open>1 - 2^-53\<close>, the largest double below
  1: \<^verbatim>\<open>random(2, 4)\<close> is 4 in doubles, the count is 4, and the frame appends four circles,
  not two or three.
\<close>

theorem spawn_step_four:
  "unit_draws edge
   \<and> rnd edge 0 = 1 / 8 \<and> rnd edge 1 = 1 - 1 / 2 ^ 53
   \<and> random_double (Num 2) (Num 4) (rnd edge 1) = Num 4
   \<and> map_option (\<lambda>st. length (circles st)) (spawn_step ranges1 edge (Num 1000) (init edge))
       = Some 4
   \<and> map_option (\<lambda>(st, out). length (circles st)) (animate1 edge (Num 1000) (init edge))
       = Some 4
   \<and> map_option (\<lambda>(st, out). length (circles st)) (animate2 edge (Num 1000) (init edge))
       = Some 4"
proof -
  have u: "unit_draws edge" by (simp add: unit_draws_def edge_def)
  have r: "rnd edge 0 = 1 / 8" "rnd edge 1 = 1 - 1 / 2 ^ 53" by (simp_all add: edge_def)
  have d: "random_double (Num 2) (Num 4) (rnd edge 1) = Num 4"
    unfolding r by (rule random_double_edge)
  have s1: "spawn_step ranges1 edge (Num 1000) ((init edge)\<lparr>lastNow := Num 1000\<rparr>) =
      Some ((spawnCircle ranges1 edge ^^ 4)
        ((init edge)\<lparr>lastNow := Num 1000, lastSpawn := Num 1000, rnd_used := 2\<rparr>))"
    by (simp add: spawn_step_def edge_count spawn_loop_Num)
  have s2: "spawn_step ranges2 edge (Num 1000) (init edge) =
      Some ((spawnCircle ranges2 edge ^^ 4) ((init edge)\<lparr>lastSpawn := Num 1000, rnd_used := 2\<rparr>))"
    by (simp add: spawn_step_def edge_count spawn_loop_Num)
  have l0: "map_option (\<lambda>st. length (circles st))
      (spawn_step ranges1 edge (Num 1000) (init edge)) = Some 4"
    by (simp add: spawn_step_def edge_count spawn_loop_Num length_spawn_funpow)
  have l1: "map_option (\<lambda>(st, out). length (circles st)) (animate1 edge (Num 1000) (init edge))
       = Some 4"
    unfolding animate1_unfold [OF s1]
    by (simp add: eval_nat_numeral spawnCircle_def new_circle_def minRadius_def maxRadius_def
        ranges1_def delta_def advance_def age_def expired_def edge_def)
  have l2: "map_option (\<lambda>(st, out). length (circles st)) (animate2 edge (Num 1000) (init edge))
       = Some 4"
    unfolding animate2_unfold [OF s2]
    by (simp add: eval_nat_numeral spawnCircle_def new_circle_def minRadius_def maxRadius_def
        ranges2_def age_def expired_def edge_def)
  show ?thesis using u r d l0 l1 l2 by simp
qed

text \<open>
  C2, on the first closure. Two frames 200 ms apart: \<open>delta\<close> is 50, and the age that the
  frames compute for the one circle goes from -50 at the first frame to 100 at the second,
  150 ms more.
\<close>

theorem animate1_age_jump:
  "delta (Num 1200) (Num 1000) = Num 50
   \<and> map_option (\<lambda>st. map (age (Num 1000)) (circles st))
        (frames1 desktop [Num 1000] (init desktop)) = Some [Num (- 50)]
   \<and> map_option (\<lambda>st. map (age (Num 1200)) (circles st))
        (frames1 desktop [Num 1000, Num 1200] (init desktop)) = Some [Num 100]"
  by (simp add: frame_eval desktop_def)

text \<open>
  C4, on the second closure. The frame at 1000 ms spawns a circle at the clock reading
  1001: its age is -1, its opacity before the dimming factor is -1/2250, which is not in
  \<open>[0, 1]\<close>, and the frame draws it with the opacity -1/9000.
\<close>

theorem animate2_negative_alpha:
  "map_option snd (animate2 late (Num 1000) (init late))
     = Some [ClearRect (Num 0) (Num 0) (Num 1000) (Num 800),
             FillDisc (Num (- (1 / 9000)))
               [(Num 0, Solid (Hsla (Num 180) (Num 72) (Num 65))), (Num 1, Transparent)]
               (Num 500) (Num 400) (Num 50)]
   \<and> map_option (\<lambda>(st, out). map (\<lambda>c. alpha2 c (jdiv (age (Num 1000) c) (lifeMs c))) (circles st))
        (animate2 late (Num 1000) (init late)) = Some [Num (- (1 / 2250))]"
  by (simp add: frame_eval late_def draw2_def alpha2_def alpha_fade_def stops2_def
      init_def resizeCanvas_def declared_def)

section \<open>The frame on every input\<close>

lemma lastNow_spawn_funpow: "lastNow ((spawnCircle g e ^^ n) st) = lastNow st"
  by (induction n) (simp_all add: spawnCircle_def)

lemma spawn_step_appends:
  assumes "spawn_step g e now st = Some s"
  shows "(\<exists>new. circles s = circles st @ new) \<and> lastNow s = lastNow st"
proof (cases "jgt (jsub now (lastSpawn st)) (Num 400)")
  case False
  with assms show ?thesis by (simp add: spawn_step_def)
next
  case True
  obtain x k where xk: "spawn_count e (rnd_used st) = (Num x, k)"
    by (cases "rnd e (rnd_used st) < 0.2") (simp_all add: spawn_count_def)
  with True assms
  have s: "s = (spawnCircle g e ^^ nat \<lceil>x\<rceil>) (st\<lparr>lastSpawn := now, rnd_used := k\<rparr>)"
    by (simp add: spawn_step_def spawn_loop_Num)
  show ?thesis
    unfolding s lastNow_spawn_funpow
    using circles_spawn_funpow [where g = g and e = e and n = "nat \<lceil>x\<rceil>"
        and st = "st\<lparr>lastSpawn := now, rnd_used := k\<rparr>"]
    by auto
qed

lemma animate_total:
  "(\<exists>st' out. animate1 e now st = Some (st', out))
   \<and> (\<exists>st' out. animate2 e now st = Some (st', out))"
proof -
  obtain a b where "spawn_step ranges1 e now (st\<lparr>lastNow := now\<rparr>) = Some a"
    "spawn_step ranges2 e now st = Some b"
    using spawn_step_returns by blast
  then show ?thesis by (simp add: animate1_unfold animate2_unfold)
qed

text \<open>
  A frame returns, in both closures and on every input: the loop of the spawn step
  runs for a finite count.
\<close>

theorem animate_returns:
  "(\<exists>r. animate1 e now st = Some r) \<and> (\<exists>r. animate2 e now st = Some r)"
  using animate_total [of e now st] by auto

text \<open>
  After a frame the array holds, in their order, the circles of the array after the
  spawn step for which the frame computes an age below the lifetime: the first closure
  computes the age from \<open>createdAt + delta\<close>, and writes that sum to the circle, the
  second computes it from \<open>createdAt\<close>.
\<close>

theorem animate_removes_expired:
  assumes "animate1 e now st = Some (st1, out1)" "animate2 e now st = Some (st2, out2)"
  shows "(\<exists>s. spawn_step ranges1 e now (st\<lparr>lastNow := now\<rparr>) = Some s
           \<and> circles st1 = filter (\<lambda>c. \<not> jge (age now c) (lifeMs c))
                 (map (advance (delta now (lastNow st))) (circles s)))
       \<and> (\<exists>s. spawn_step ranges2 e now st = Some s
           \<and> circles st2 = filter (\<lambda>c. \<not> jge (age now c) (lifeMs c)) (circles s))"
proof -
  obtain a b where ab: "spawn_step ranges1 e now (st\<lparr>lastNow := now\<rparr>) = Some a"
    "spawn_step ranges2 e now st = Some b"
    using spawn_step_returns by blast
  from assms show ?thesis
    unfolding animate1_unfold [OF ab(1)] animate2_unfold [OF ab(2)]
    using ab by (auto simp add: expired_def)
qed

lemma held_no_spawn:
  "spawn_step g desktop (Num 10000) (held\<lparr>lastNow := Num 10000\<rparr>)
     = Some (held\<lparr>lastNow := Num 10000\<rparr>)"
  "spawn_step g desktop (Num 10000) held = Some held"
  by (simp_all add: spawn_step_def held_def)

theorem animate_removes_expired_witness:
  "map_option (\<lambda>(st, out). map createdAt (circles st)) (animate1 desktop (Num 10000) held)
     = Some [Num 10]
   \<and> map_option (\<lambda>(st, out). circles st) (animate2 desktop (Num 10000) held) = Some []"
proof -
  obtain st1 out1 st2 out2 where r: "animate1 desktop (Num 10000) held = Some (st1, out1)"
    "animate2 desktop (Num 10000) held = Some (st2, out2)"
    using animate_total by blast
  from animate_removes_expired [OF r]
  have "circles st1 = filter (\<lambda>c. \<not> jge (age (Num 10000) c) (lifeMs c))
                 (map (advance (delta (Num 10000) (lastNow held))) (circles held))"
    and "circles st2 = filter (\<lambda>c. \<not> jge (age (Num 10000) c) (lifeMs c)) (circles held)"
    by (simp_all add: held_no_spawn)
  then show ?thesis
    unfolding r by (simp add: held_def sample_def age_def advance_def delta_def)
qed

text \<open>
  In the first closure every circle that a frame draws is drawn with an opacity
  \<open>u * 0.22\<close> for a finite \<open>u\<close> of \<open>[0, 1]\<close>, whatever the fields of the circle are. The
  witness is a circle of lifetime zero: its progress is infinite and it is drawn with the
  opacity 0.
\<close>

theorem animate1_alpha_safe:
  assumes "animate1 e now st = Some (st1, out)" and "FillDisc a g px py r \<in> set out"
  shows "\<exists>u. a = Num (u * 0.22) \<and> 0 \<le> u \<and> u \<le> 1"
proof -
  obtain s where s: "spawn_step ranges1 e now (st\<lparr>lastNow := now\<rparr>) = Some s"
    using spawn_step_returns by blast
  from assms obtain c where "FillDisc a g px py r = draw1 now c"
    unfolding animate1_unfold [OF s] by auto
  then have "a = jmul (alpha_safe (alpha_fade c (jdiv (age now c) (lifeMs c)))) (Num 0.22)"
    by (simp add: draw1_def alpha1_def Let_def)
  with alpha_safe_range [of "alpha_fade c (jdiv (age now c) (lifeMs c))"]
  show ?thesis by auto
qed

lemma degenerate_frame:
  "animate1 desktop (Num 10000) degenerate =
     Some (degenerate\<lparr>lastNow := Num 10000,
             circles := [sample\<lparr>lifeMs := Num 0, createdAt := Num 20010\<rparr>]\<rparr>,
           [ClearRect (Num 0) (Num 0) (Num 1000) (Num 800),
            FillDisc (Num 0) (stops1 sample) (Num 500) (Num 400) (Num 50)])"
  by (simp add: frame_eval degenerate_def sample_def draw1_def alpha1_def alpha_fade_def
      alpha_safe_def stops1_def init_def resizeCanvas_def declared_def signed_inf_def
      desktop_def)

theorem animate1_alpha_safe_witness:
  "map_option snd (animate1 desktop (Num 10000) degenerate)
     = Some [ClearRect (Num 0) (Num 0) (Num 1000) (Num 800),
             FillDisc (Num 0) (stops1 sample) (Num 500) (Num 400) (Num 50)]
   \<and> (\<exists>u. Num 0 = Num (u * 0.22) \<and> 0 \<le> u \<and> u \<le> 1)"
proof
  show "map_option snd (animate1 desktop (Num 10000) degenerate)
     = Some [ClearRect (Num 0) (Num 0) (Num 1000) (Num 800),
             FillDisc (Num 0) (stops1 sample) (Num 500) (Num 400) (Num 50)]"
    by (simp add: degenerate_frame)
  show "\<exists>u. Num 0 = Num (u * 0.22) \<and> 0 \<le> u \<and> u \<le> 1"
    by (rule animate1_alpha_safe [OF degenerate_frame]) simp
qed

text \<open>
  For finite timestamps \<open>delta\<close> is a number of \<open>[0, 50]\<close>, and it is 50 when the
  frame comes 200 ms after the one before.
\<close>

theorem delta_clamped:
  "(\<exists>d. delta (Num now) (Num prev) = Num d \<and> 0 \<le> d \<and> d \<le> 50)
   \<and> delta (Num (prev + 200)) (Num prev) = Num 50"
  by (simp add: delta_def)

section \<open>The age of a circle over the frames of the first closure\<close>

lemma delta_smooth:
  "prev \<le> now \<Longrightarrow> now - prev \<le> 50 \<Longrightarrow> delta (Num now) (Num prev) = Num (now - prev)"
  by (simp add: delta_def)

lemma expired_advance:
  "createdAt c = Num a \<Longrightarrow>
   expired (Num now) (advance (Num (now - prev)) c) = expired (Num prev) c"
  by (simp add: expired_def age_def advance_def)

lemma age_advance:
  "createdAt c = Num a \<Longrightarrow>
   age (Num now) (advance (Num (now - prev)) c) = age (Num prev) c"
  by (simp add: age_def advance_def)

text \<open>
  From a frame at \<open>prev\<close> to the next at \<open>now\<close>, the age that the first closure
  computes for a circle grows by \<open>max 0 ((now - prev) - 50)\<close>: by nothing when the frames
  are at most 50 ms apart, and by the time between the frames less 50 ms otherwise.
\<close>

theorem advance_age:
  assumes "createdAt c = Num a" "prev \<le> now"
  shows "age (Num now) (advance (delta (Num now) (Num prev)) c)
         = Num ((prev - a) + max 0 ((now - prev) - 50))
       \<and> age (Num prev) c = Num (prev - a)"
  using assms by (simp add: age_def advance_def delta_def max_def min_def)

theorem advance_age_witness:
  "age (Num 1200) (advance (delta (Num 1200) (Num 1000)) sample) = Num 1150
   \<and> age (Num 1000) sample = Num 1000
   \<and> age (Num 1016) (advance (delta (Num 1016) (Num 1000)) sample) = Num 1000"
proof -
  have c: "createdAt sample = Num 0" by (simp add: sample_def)
  from advance_age [OF c, of 1000 1200] advance_age [OF c, of 1000 1016]
  show ?thesis by simp
qed

lemma animate1_smooth_step:
  assumes ln: "lastNow st = Num prev" and le: "prev \<le> now" "now - prev \<le> 50"
    and c: "c \<in> set (circles st)" and a: "createdAt c = Num a"
    and live: "\<not> expired (Num prev) c"
  shows "\<exists>st' out. animate1 e (Num now) st = Some (st', out) \<and> lastNow st' = Num now
           \<and> advance (Num (now - prev)) c \<in> set (circles st')"
proof -
  obtain s where s: "spawn_step ranges1 e (Num now) (st\<lparr>lastNow := Num now\<rparr>) = Some s"
    using spawn_step_returns by blast
  from spawn_step_appends [OF s] obtain new where
    cs: "circles s = circles st @ new" and l: "lastNow s = Num now" by auto
  have "\<not> expired (Num now) (advance (Num (now - prev)) c)"
    using live by (simp add: expired_advance [OF a])
  with c show ?thesis
    unfolding animate1_unfold [OF s] ln delta_smooth [OF le] by (simp add: cs l)
qed

text \<open>
  C1, on the first closure. Over frames that are each at most 50 ms after the one before,
  a circle of the array that is not expired stays in the array, with its lifetime, and
  the age computed for it stays what it was, however long the frames go on: it is never
  removed. The witness is the script from its start over frames 16 ms apart: the circle
  spawned by the first frame, at 1000 ms, with a lifetime of 11500 ms, is in the array
  after every frame, with a computed age of -50 ms; after the frame at 13000 ms it has
  been there for 12000 ms, over 750 frames of a \<open>delta\<close> of 16 ms each.
\<close>

theorem frames1_never_expires:
  assumes "smooth prev ts" and "lastNow st = Num prev"
    and "c \<in> set (circles st)" and "createdAt c = Num a" and "\<not> expired (Num prev) c"
  shows "\<exists>st' c'. frames1 e (map Num ts) st = Some st' \<and> lastNow st' = Num (last (prev # ts))
           \<and> c' \<in> set (circles st') \<and> lifeMs c' = lifeMs c
           \<and> age (lastNow st') c' = age (Num prev) c"
  using assms
proof (induction ts arbitrary: prev st c a)
  case Nil
  then show ?case by auto
next
  case (Cons t ts)
  from Cons.prems(1) have le: "prev \<le> t" "t - prev \<le> 50" and sm: "smooth t ts" by simp_all
  let ?c = "advance (Num (t - prev)) c"
  from animate1_smooth_step [OF Cons.prems(2) le Cons.prems(3,4,5)]
  obtain st1 out where st1: "animate1 e (Num t) st = Some (st1, out)" "lastNow st1 = Num t"
    "?c \<in> set (circles st1)" by blast
  have ca: "createdAt ?c = Num (a + (t - prev))" using Cons.prems(4) by (simp add: advance_def)
  have live: "\<not> expired (Num t) ?c"
    using Cons.prems(5) by (simp add: expired_advance [OF Cons.prems(4)])
  from Cons.IH [OF sm st1(2) st1(3) ca live]
  obtain st' c' where r: "frames1 e (map Num ts) st1 = Some st'"
    "lastNow st' = Num (last (t # ts))" "c' \<in> set (circles st')"
    "lifeMs c' = lifeMs ?c" "age (lastNow st') c' = age (Num t) ?c" by blast
  have "lifeMs ?c = lifeMs c" by (simp add: advance_def)
  with r st1(1) show ?case
    unfolding age_advance [OF Cons.prems(4)] by auto
qed


lemma smooth_16: "smooth (1000 + 16 * real m) (map (\<lambda>k. 1000 + 16 * real k) [Suc m..<Suc m + n])"
proof (induction n arbitrary: m)
  case 0
  show ?case by simp
next
  case (Suc n)
  have "[Suc m..<Suc m + Suc n] = Suc m # [Suc (Suc m)..<Suc (Suc m) + n]"
    by (simp add: upt_conv_Cons)
  with Suc [of "Suc m"] show ?case by simp
qed

lemma last_16: "last (1000 # map (\<lambda>k. 1000 + 16 * real k) [Suc 0..<Suc 0 + n]) = 1000 + 16 * real n"
  by (cases n) (simp_all add: last_map)

lemma steady_first_frame:
  "map_option (\<lambda>(st, out). (lastNow st, map (\<lambda>c. (createdAt c, lifeMs c)) (circles st)))
     (animate1 steady (Num 1000) (init steady)) = Some (Num 1000, [(Num 1050, Num 11500)])"
  by (simp add: frame_eval steady_def)

theorem frames1_never_expires_witness:
  "\<forall>n. \<exists>st' c'. frames1 steady (map (\<lambda>k. Num (1000 + 16 * real k)) [0..<Suc n]) (init steady)
            = Some st'
       \<and> lastNow st' = Num (1000 + 16 * real n)
       \<and> c' \<in> set (circles st') \<and> lifeMs c' = Num 11500 \<and> age (lastNow st') c' = Num (- 50)"
proof
  fix n
  obtain st1 out1 where f: "animate1 steady (Num 1000) (init steady) = Some (st1, out1)"
    using animate_total by blast
  with steady_first_frame have l: "lastNow st1 = Num 1000"
    and cs: "map (\<lambda>c. (createdAt c, lifeMs c)) (circles st1) = [(Num 1050, Num 11500)]"
    by simp_all
  from cs obtain c where c: "circles st1 = [c]" "createdAt c = Num 1050" "lifeMs c = Num 11500"
    by auto
  have live: "\<not> expired (Num 1000) c" using c by (simp add: expired_def age_def)
  have mem: "c \<in> set (circles st1)" using c by simp
  let ?ts = "map (\<lambda>k. 1000 + 16 * real k) [Suc 0..<Suc 0 + n]"
  have sm: "smooth 1000 ?ts" using smooth_16 [of 0 n] by simp
  have split: "map (\<lambda>k. Num (1000 + 16 * real k)) [0..<Suc n] = Num 1000 # map Num ?ts"
    by (simp add: upt_rec [of 0] comp_def del: upt_Suc)
  from frames1_never_expires [OF sm l mem c(2) live, of steady]
  obtain st' c' where r: "frames1 steady (map Num ?ts) st1 = Some st'"
    "lastNow st' = Num (last (1000 # ?ts))" "c' \<in> set (circles st')" "lifeMs c' = lifeMs c"
    "age (lastNow st') c' = age (Num 1000) c" by blast
  have "frames1 steady (map (\<lambda>k. Num (1000 + 16 * real k)) [0..<Suc n]) (init steady) = Some st'"
    unfolding split using f r(1) by simp
  moreover have "lastNow st' = Num (1000 + 16 * real n)" using r(2) last_16 [of n] by simp
  moreover have "age (lastNow st') c' = Num (- 50)" using r(5) c(2) by (simp add: age_def)
  ultimately show "\<exists>st' c'. frames1 steady (map (\<lambda>k. Num (1000 + 16 * real k)) [0..<Suc n]) (init steady)
            = Some st'
       \<and> lastNow st' = Num (1000 + 16 * real n)
       \<and> c' \<in> set (circles st') \<and> lifeMs c' = Num 11500 \<and> age (lastNow st') c' = Num (- 50)"
    using r(3,4) c(3) by auto
qed

end
